theory Spec2Isabelle
  imports Main "HOL-Library.Word" "HOL-Library.Signed_Division"
begin

unbundle bit_operations_syntax

section \<open>Machine types of the ATmega328P build\<close>

text \<open>
  The sketch is compiled by avr-gcc for the ATmega328P: \<open>byte\<close> is an unsigned 8-bit
  value, \<open>int\<close> is a signed 16-bit value and \<open>long\<close> a 32-bit one. Words carry the
  bits; \<open>sint\<close> and the signed comparisons \<open><s\<close>, \<open>\<le>s\<close> read an \<open>int\<close>.
  A pin level is a boolean, \<open>True\<close> for HIGH; \<open>digitalRead\<close> hands it to the
  program as the \<open>int\<close> 1 or 0.
\<close>

type_synonym byte = "8 word"
type_synonym int16 = "16 word"
type_synonym long32 = "32 word"

definition digitalRead :: "bool \<Rightarrow> int16" where
  "digitalRead lvl = (if lvl then 1 else 0)"

text \<open>
  Division of two \<open>int\<close> values truncates towards zero. The sketch divides only by
  the constants 13 and 2.
\<close>

definition int_div :: "int16 \<Rightarrow> int16 \<Rightarrow> int16" where
  "int_div a b = word_of_int (sint a sdiv sint b)"

definition COUNTLIMIT :: int16 where
  "COUNTLIMIT = 2046"

definition upMask :: int16 where
  "upMask = 0x66"

definition downMask :: int16 where
  "downMask = 0x99"

section \<open>Single-precision arithmetic\<close>

text \<open>
  \<open>float\<close> (and \<open>double\<close>, which avr-gcc gives the same width) is IEEE 754
  binary32. A finite value is \<open>mant * 2 ^ expo\<close>, kept with an odd mantissa (zero as
  \<open>Flt 0 0\<close>) so that equal values are equal terms. Every operation computes the exact
  result and rounds it to 24 significant bits, to nearest with ties to even. The
  exponent is not bounded and there are no infinities, NaN or negative zero: the sketch
  only multiplies and divides values derived from \<open>count\<close> by the non-zero constants
  10, 100, 1000, 10000, 1023 and 2046, whose results are zero or lie far inside the
  normal range of binary32.
\<close>

datatype float32 = Flt (mant: int) (expo: int)

fun nbits :: "nat \<Rightarrow> nat" where
  "nbits n = (if n = 0 then 0 else Suc (nbits (n div 2)))"

declare nbits.simps [simp del]

function normal :: "int \<Rightarrow> int \<Rightarrow> float32" where
  "normal m e =
     (if m = 0 then Flt 0 0
      else if even m then normal (m div 2) (e + 1)
      else Flt m e)"
  by pat_completeness auto
termination
  by (relation "measure (\<lambda>(m, e). nat \<bar>m\<bar>)") auto

declare normal.simps [simp del]

text \<open>\<open>rne m e\<close> rounds the exact value \<open>m * 2 ^ e\<close> to 24 significant bits.\<close>

definition rne :: "int \<Rightarrow> int \<Rightarrow> float32" where
  "rne m e =
     (let a = nat \<bar>m\<bar>; n = nbits a in
      if n \<le> 24 then normal m e
      else
        let sh = n - 24; q = a div 2 ^ sh; r = a mod 2 ^ sh; h = 2 ^ (sh - 1);
            q' = (if h < r \<or> (r = h \<and> odd q) then q + 1 else q)
        in normal (sgn m * int q') (e + int sh))"

text \<open>Conversion of an \<open>int\<close> to \<open>float\<close>; 16 bits always fit.\<close>

definition f32_of_int :: "int \<Rightarrow> float32" where
  "f32_of_int i = rne i 0"

fun f32_mul :: "float32 \<Rightarrow> float32 \<Rightarrow> float32" where
  "f32_mul (Flt m1 e1) (Flt m2 e2) = rne (m1 * m2) (e1 + e2)"

fun f32_sub :: "float32 \<Rightarrow> float32 \<Rightarrow> float32" where
  "f32_sub (Flt m1 e1) (Flt m2 e2) =
     (let e = min e1 e2
      in rne (m1 * 2 ^ nat (e1 - e) - m2 * 2 ^ nat (e2 - e)) e)"

text \<open>
  Division by a non-zero value: the quotient of the mantissas is taken with more than 26
  bits and one sticky bit for a non-zero remainder, which is enough for the rounding to
  see the exact quotient. (A zero divisor, which IEEE answers with an infinity or NaN,
  is outside this model; the sketch has none.)
\<close>

fun f32_div :: "float32 \<Rightarrow> float32 \<Rightarrow> float32" where
  "f32_div (Flt m1 e1) (Flt m2 e2) =
     (let k = 26 + nbits (nat \<bar>m2\<bar>);
          n = \<bar>m1\<bar> * 2 ^ k; d = \<bar>m2\<bar>;
          q = n div d; sticky = (if n mod d = 0 then 0 else 1)
      in rne (sgn m1 * sgn m2 * (2 * q + sticky)) (e1 - e2 - int k - 1))"

text \<open>Conversion of a \<open>float\<close> to an integer drops the fraction (towards zero).\<close>

definition f32_to_int :: "float32 \<Rightarrow> int" where
  "f32_to_int x =
     (if 0 \<le> expo x then mant x * 2 ^ nat (expo x)
      else sgn (mant x) * (\<bar>mant x\<bar> div 2 ^ nat (- expo x)))"

definition int_of_float :: "float32 \<Rightarrow> int16" where
  "int_of_float x = word_of_int (f32_to_int x)"

definition float_of_int :: "int16 \<Rightarrow> float32" where
  "float_of_int i = f32_of_int (sint i)"

section \<open>Global state of the sketch\<close>

text \<open>
  The globals of \<open>EqRADrive.ino\<close>, followed by what the sketch writes to its outputs:
  the levels last written to the two direction pins of the motor driver and the duty last
  passed to \<open>Timer1.pwm\<close> (\<open>None\<close> until the sketch writes them for the first
  time), and the four frames last shifted out to the display.
  A frame is the segment byte and the digit-select byte; a byte is \<open>None\<close> when the
  sketch reads its table outside its bounds.
\<close>

type_synonym frame = "byte option \<times> byte option"

record state =
  displayIsOn :: bool
  timeOfLastEvent :: long32
  pwmUpdateNeeded :: bool
  abOld :: byte
  count :: int16
  old_count :: int16
  lastpressed :: long32
  forward :: bool
  stopped :: bool
  speed2x :: bool
  speedFull :: bool
  dutyCycle :: float32
  MOTOR_A1 :: "bool option"
  MOTOR_B1 :: "bool option"
  PWM_OUTPUT :: "int16 option"
  shown :: "frame list"

definition init_state :: state where
  "init_state =
     \<lparr> displayIsOn = True, timeOfLastEvent = 0, pwmUpdateNeeded = True, abOld = 0,
       count = int_div COUNTLIMIT 13, old_count = 0, lastpressed = 0,
       forward = True, stopped = False, speed2x = False, speedFull = False,
       dutyCycle = Flt 1 3,
       MOTOR_A1 = None, MOTOR_B1 = None, PWM_OUTPUT = None, shown = [] \<rparr>"

section \<open>The encoder interrupt handler\<close>

text \<open>
  \<open>pinChangeISR a b\<close> is one run of the handler when \<open>digitalRead\<close> gives \<open>a\<close>
  for pin A and \<open>b\<close> for pin B. The shift \<open>1 << (2 * abOld + abNew / 2)\<close> is taken
  in \<open>int\<close>; it is only evaluated when \<open>criterion\<close> is 1 or 2, where \<open>abOld\<close> is
  at most 3 and the shift at most 7.
\<close>

definition pinChangeISR :: "bool \<Rightarrow> bool \<Rightarrow> state \<Rightarrow> state" where
  "pinChangeISR a b s =
     (let abNew = (ucast (push_bit 1 (digitalRead a) OR digitalRead b) :: byte);
          criterion = abNew XOR abOld s;
          c1 = (if criterion = 1 \<or> criterion = 2
                then (if upMask AND
                          push_bit (unat (2 * ucast (abOld s) + int_div (ucast abNew) 2 :: int16)) 1 \<noteq> 0
                      then count s + 1
                      else count s - 1)
                else count s);
          c2 = (if c1 <s 0 then 0 else c1);
          c3 = (if COUNTLIMIT <s c2 then COUNTLIMIT else c2)
      in s\<lparr>abOld := abNew, pwmUpdateNeeded := True, count := c3\<rparr>)"

text \<open>A sequence of interrupts, each with the pin levels it reads.\<close>

definition run_isr :: "(bool \<times> bool) list \<Rightarrow> state \<Rightarrow> state" where
  "run_isr ins s = foldl (\<lambda>t (a, b). pinChangeISR a b t) s ins"

definition count_in_range :: "state \<Rightarrow> bool" where
  "count_in_range s = (0 \<le> sint (count s) \<and> sint (count s) \<le> sint COUNTLIMIT)"

section \<open>Fixed-direction input sequences\<close>

text \<open>
  Test inputs for the decoder. With A the high bit and B the low bit, the counting-up
  direction of the table \<open>upMask\<close> is 00, 10, 11, 01, 00: from equal levels pin A changes,
  from different levels pin B changes. \<open>up_seq n p\<close> lists the pin levels read by
  \<open>n\<close> successive interrupts in that direction when the last levels were \<open>p\<close>, and
  \<open>up_cycle p\<close> is one full turn of four transitions, which from equal levels is the
  sequence A, B, A, B.
\<close>

definition ab_code :: "bool \<times> bool \<Rightarrow> byte" where
  "ab_code p = ucast (push_bit 1 (digitalRead (fst p)) OR digitalRead (snd p))"

definition up_next :: "bool \<times> bool \<Rightarrow> bool \<times> bool" where
  "up_next p = (if fst p = snd p then (\<not> fst p, snd p) else (fst p, \<not> snd p))"

fun up_seq :: "nat \<Rightarrow> bool \<times> bool \<Rightarrow> (bool \<times> bool) list" where
  "up_seq 0 p = []"
| "up_seq (Suc n) p = up_next p # up_seq n (up_next p)"

definition up_cycle :: "bool \<times> bool \<Rightarrow> (bool \<times> bool) list" where
  "up_cycle p = up_seq 4 p"

section \<open>The display\<close>

definition bits :: "byte list" where
  "bits = [0xC0, 0xF9, 0xA4, 0xB0, 0x99, 0x92, 0x82, 0xF8, 0x80, 0x90]"

definition displays :: "byte list" where
  "displays = [0x08, 0x04, 0x02, 0x01]"

definition table_read :: "byte list \<Rightarrow> byte \<Rightarrow> byte option" where
  "table_read tab i = (if unat i < length tab then Some (tab ! unat i) else None)"

text \<open>
  \<open>displayNumber on number digit withDecimalDot\<close> gives the two bytes shifted out,
  where \<open>on\<close> is the global \<open>displayIsOn\<close>.
\<close>

definition displayNumber :: "bool \<Rightarrow> byte \<Rightarrow> byte \<Rightarrow> bool \<Rightarrow> frame" where
  "displayNumber on number digit withDecimalDot =
     (if on
      then (if withDecimalDot
            then map_option (\<lambda>x. x AND 0x7F) (table_read bits number)
            else table_read bits number,
            table_read displays digit)
      else (Some 0xFF, table_read displays digit))"

text \<open>
  The array \<open>digits\<close> of \<open>display\<close>: each digit is an \<open>int\<close> obtained by
  converting a \<open>float\<close> expression, then narrowed to a \<open>byte\<close>.
\<close>

definition display_digits :: "float32 \<Rightarrow> byte list" where
  "display_digits percentage =
     (let firstDigit = int_of_float (f32_mul percentage (float_of_int 10));
          secondDigit = int_of_float
            (f32_sub (f32_mul percentage (float_of_int 100)) (float_of_int (firstDigit * 10)));
          thirdDigit = int_of_float
            (f32_sub (f32_mul percentage (float_of_int 1000))
               (float_of_int (firstDigit * 100 + secondDigit * 10)));
          fourthDigit = int_of_float
            (f32_sub (f32_mul percentage (float_of_int 10000))
               (float_of_int (firstDigit * 1000 + secondDigit * 100 + thirdDigit * 10)))
      in [ucast firstDigit, ucast secondDigit, ucast thirdDigit, ucast fourthDigit])"

definition display :: "bool \<Rightarrow> float32 \<Rightarrow> frame list" where
  "display on percentage =
     (let digits = display_digits percentage
      in map (\<lambda>i. displayNumber on (digits ! i) (of_nat i) (i = 1)) [0 ..< 4])"

section \<open>The main loop\<close>

text \<open>
  \<open>checkKYbutton button now now'\<close>: \<open>button\<close> is the level of the encoder's push
  button, \<open>now\<close> and \<open>now'\<close> are what the two calls of \<open>millis\<close> return. The
  difference and the comparison are unsigned.
\<close>

definition checkKYbutton :: "bool \<Rightarrow> long32 \<Rightarrow> long32 \<Rightarrow> state \<Rightarrow> state" where
  "checkKYbutton button now now' s =
     (if 500 < now - lastpressed s \<and> \<not> button
      then s\<lparr>displayIsOn := \<not> displayIsOn s, lastpressed := now'\<rparr>
      else s)"

text \<open>
  Lines 222 to 239 of \<open>loop\<close>: the four membrane buttons are read (\<open>k1\<close> to
  \<open>k4\<close> are the levels of \<open>membraneButtonPins[0]\<close> to \<open>[3]\<close>, HIGH when not
  pressed) and the three intents derived.
\<close>

definition read_buttons :: "bool \<Rightarrow> bool \<Rightarrow> bool \<Rightarrow> bool \<Rightarrow> state \<Rightarrow> state" where
  "read_buttons k1 k2 k3 k4 s =
     (let membraneButtonStatus = [digitalRead k1, digitalRead k2, digitalRead k3, digitalRead k4];
          oldForward = forward s;
          forward' = (2 \<le>s membraneButtonStatus ! 0 + membraneButtonStatus ! 1);
          oldSpeed2x = speed2x s;
          speed2x' = (membraneButtonStatus ! 1 + membraneButtonStatus ! 2 <s 2);
          oldSpeedFull = speedFull s;
          speedFull' = (membraneButtonStatus ! 0 + membraneButtonStatus ! 3 <s 2);
          s' = s\<lparr>forward := forward', speed2x := speed2x', speedFull := speedFull'\<rparr>
      in if forward' \<noteq> oldForward \<or> speed2x' \<noteq> oldSpeed2x \<or> speedFull' \<noteq> oldSpeedFull
         then s'\<lparr>pwmUpdateNeeded := True\<rparr>
         else s')"

text \<open>
  Lines 263 and 264: the duty cycle in percent computed from \<open>count\<close>, and the
  \<open>int\<close> duty computed from it before the speed overrides.
\<close>

definition duty_of_count :: "int16 \<Rightarrow> float32" where
  "duty_of_count c = f32_div (f32_mul (float_of_int c) (float_of_int 100)) (float_of_int COUNTLIMIT)"

definition base_pwm :: "float32 \<Rightarrow> int16" where
  "base_pwm d = int_of_float (f32_mul (f32_div d (float_of_int 100)) (float_of_int 1023))"

text \<open>The branch of lines 244 to 261 that writes the direction pins.\<close>

datatype direction = Forward | Reverse | Stop

definition resolve_direction :: "state \<Rightarrow> direction" where
  "resolve_direction s = (if forward s then Forward else if \<not> stopped s then Reverse else Stop)"

definition write_direction :: "direction \<Rightarrow> state \<Rightarrow> state" where
  "write_direction d s =
     (case d of
        Forward \<Rightarrow> s\<lparr>MOTOR_A1 := Some False, MOTOR_B1 := Some True\<rparr>
      | Reverse \<Rightarrow> s\<lparr>MOTOR_A1 := Some True, MOTOR_B1 := Some False\<rparr>
      | Stop \<Rightarrow> s\<lparr>MOTOR_A1 := Some False, MOTOR_B1 := Some False\<rparr>)"

text \<open>Lines 241 to 268: the output stage, guarded by \<open>pwmUpdateNeeded\<close>.\<close>

definition output_stage :: "state \<Rightarrow> state" where
  "output_stage s =
     (if pwmUpdateNeeded s
      then
        let s1 = s\<lparr>pwmUpdateNeeded := False\<rparr>;
            s2 = write_direction (resolve_direction s1) s1;
            d = duty_of_count (count s2);
            pwm_duty_cycle = base_pwm d;
            pwm_duty_cycle' =
              (if speed2x s2 then pwm_duty_cycle * 2
               else if speedFull s2 then 1023
               else pwm_duty_cycle)
        in s2\<lparr>dutyCycle := d, PWM_OUTPUT := Some pwm_duty_cycle'\<rparr>
      else s)"

text \<open>Line 270: the display is refreshed in every iteration.\<close>

definition display_stage :: "state \<Rightarrow> state" where
  "display_stage s =
     s\<lparr>shown := display (displayIsOn s) (f32_div (dutyCycle s) (f32_of_int 100))\<rparr>"

record inputs =
  ky_button :: bool
  millis1 :: long32
  millis2 :: long32
  key1 :: bool
  key2 :: bool
  key3 :: bool
  key4 :: bool

definition loop :: "inputs \<Rightarrow> state \<Rightarrow> state" where
  "loop i s =
     display_stage
       (output_stage
         (read_buttons (key1 i) (key2 i) (key3 i) (key4 i)
           (checkKYbutton (ky_button i) (millis1 i) (millis2 i) s)))"

text \<open>No button pressed, the encoder's button released.\<close>

definition idle :: inputs where
  "idle = \<lparr> ky_button = True, millis1 = 0, millis2 = 0,
            key1 = True, key2 = True, key3 = True, key4 = True \<rparr>"

text \<open>
  The states the sketch can be in between two stages: interrupts are taken between the
  stages of \<open>loop\<close>, and the stages are allowed in any order, which includes the order
  of the program.
\<close>

inductive reachable :: "state \<Rightarrow> bool" where
  r_init: "reachable init_state"
| r_isr: "reachable s \<Longrightarrow> reachable (pinChangeISR a b s)"
| r_button: "reachable s \<Longrightarrow> reachable (checkKYbutton button now now' s)"
| r_read: "reachable s \<Longrightarrow> reachable (read_buttons k1 k2 k3 k4 s)"
| r_output: "reachable s \<Longrightarrow> reachable (output_stage s)"
| r_display: "reachable s \<Longrightarrow> reachable (display_stage s)"

text \<open>
  The direction outputs a run of the output stage can leave: nothing written yet, forward
  (A LOW, B HIGH) or reverse (A HIGH, B LOW), with \<open>stopped\<close> still false.
\<close>

definition direction_ok :: "state \<Rightarrow> bool" where
  "direction_ok s =
     (\<not> stopped s
      \<and> ((MOTOR_A1 s, MOTOR_B1 s) = (None, None)
          \<or> (MOTOR_A1 s, MOTOR_B1 s) = (Some False, Some True)
          \<or> (MOTOR_A1 s, MOTOR_B1 s) = (Some True, Some False)))"

section \<open>The quadrature decoder\<close>

lemma isr_count_in_range: "count_in_range (pinChangeISR a b s)"
  unfolding count_in_range_def pinChangeISR_def Let_def
  by (simp add: COUNTLIMIT_def word_sless_alt)

lemma init_count: "count init_state = 157"
  by (simp add: init_state_def int_div_def COUNTLIMIT_def signed_divide_int_def)

lemma init_count_in_range: "count_in_range init_state"
  by (simp add: count_in_range_def init_count COUNTLIMIT_def)

lemma run_isr_range: "count_in_range s \<Longrightarrow> count_in_range (run_isr ins s)"
  unfolding run_isr_def
  by (induction ins arbitrary: s) (auto simp: isr_count_in_range)

text \<open>
  Claim C1. Whatever pin levels a sequence of interrupts reads, starting from the initial
  state, \<open>count\<close> lies in the inclusive range from 0 to \<open>COUNTLIMIT\<close> after the last
  handler has returned. The sequence is arbitrary, so this holds after each of its
  handlers.
\<close>

theorem count_always_in_range: "count_in_range (run_isr ins init_state)"
  by (rule run_isr_range) (rule init_count_in_range)

text \<open>
  Claim C2. When \<open>criterion = abNew XOR abOld\<close> is neither 1 nor 2 and \<open>count\<close> was in
  range before, the handler leaves \<open>count\<close> as it was.
\<close>

theorem invalid_transition_keeps_count:
  assumes "ab_code (a, b) XOR abOld s \<noteq> 1" and "ab_code (a, b) XOR abOld s \<noteq> 2"
    and "count_in_range s"
  shows "count (pinChangeISR a b s) = count s"
  using assms unfolding pinChangeISR_def Let_def count_in_range_def ab_code_def
  by (simp add: COUNTLIMIT_def word_sless_alt)

theorem invalid_transition_keeps_count_witness:
  "ab_code (True, True) XOR abOld init_state = 3
   \<and> count_in_range init_state
   \<and> count (pinChangeISR True True init_state) = count init_state"
proof -
  have c: "ab_code (True, True) XOR abOld init_state = 3"
    by (simp add: ab_code_def digitalRead_def init_state_def)
  have "count (pinChangeISR True True init_state) = count init_state"
    by (rule invalid_transition_keeps_count) (simp_all add: c init_count_in_range)
  with c init_count_in_range show ?thesis by simp
qed

subsection \<open>Transitions in one direction\<close>

lemma sint_succ:
  fixes c :: int16
  shows "0 \<le> sint c \<Longrightarrow> sint c < 2046 \<Longrightarrow> sint (c + 1) = sint c + 1"
  by (simp add: sint_word_ariths signed_take_bit_int_eq_self)

lemma up_step:
  assumes "abOld s = ab_code p" and "0 \<le> sint (count s)" and "sint (count s) < 2046"
  shows "pinChangeISR (fst (up_next p)) (snd (up_next p)) s
         = s\<lparr>abOld := ab_code (up_next p), pwmUpdateNeeded := True, count := count s + 1\<rparr>"
proof -
  obtain a b where p: "p = (a, b)" by (cases p)
  have s1: "sint (count s + 1) = sint (count s) + 1"
    using assms(2,3) by (rule sint_succ)
  show ?thesis
    using assms(1) s1 assms(2,3) unfolding p
    by (cases a; cases b)
       (simp_all add: pinChangeISR_def Let_def ab_code_def up_next_def digitalRead_def
          upMask_def COUNTLIMIT_def int_div_def signed_divide_int_def word_sless_alt)
qed

lemma run_up_seq:
  "abOld s = ab_code p \<Longrightarrow> 0 \<le> sint (count s) \<Longrightarrow> sint (count s) + int n \<le> 2046 \<Longrightarrow>
   sint (count (run_isr (up_seq n p) s)) = sint (count s) + int n"
proof (induction n arbitrary: s p)
  case 0
  then show ?case by (simp add: run_isr_def)
next
  case (Suc n)
  let ?s' = "pinChangeISR (fst (up_next p)) (snd (up_next p)) s"
  have st: "?s' = s\<lparr>abOld := ab_code (up_next p), pwmUpdateNeeded := True, count := count s + 1\<rparr>"
    using Suc.prems by (intro up_step) simp_all
  have s1: "sint (count s + 1) = sint (count s) + 1"
    using Suc.prems by (intro sint_succ) simp_all
  have "sint (count (run_isr (up_seq n (up_next p)) ?s')) = sint (count ?s') + int n"
    using Suc.prems s1 by (intro Suc.IH) (simp_all add: st)
  moreover have "run_isr (up_seq (Suc n) p) s = run_isr (up_seq n (up_next p)) ?s'"
    by (simp add: run_isr_def case_prod_beta)
  ultimately show ?case using s1 by (simp add: st)
qed

lemma take_up_seq: "k \<le> n \<Longrightarrow> take k (up_seq n p) = up_seq k p"
proof (induction n arbitrary: k p)
  case 0
  then show ?case by simp
next
  case (Suc n)
  then show ?case by (cases k) simp_all
qed

lemma up_next4: "up_next (up_next (up_next (up_next p))) = p"
  by (cases p) (auto simp: up_next_def)

lemma up_seq_add: "up_seq (m + n) p = up_seq m p @ up_seq n ((up_next ^^ m) p)"
  by (induction m arbitrary: p) (simp_all add: funpow_swap1)

lemma up_cycles: "concat (replicate N (up_cycle p)) = up_seq (4 * N) p"
proof (induction N)
  case 0
  then show ?case by simp
next
  case (Suc N)
  have "up_seq (4 + 4 * N) p = up_seq 4 p @ up_seq (4 * N) ((up_next ^^ 4) p)"
    by (rule up_seq_add)
  moreover have "(up_next ^^ 4) p = p"
    by (simp add: numeral_nat up_next4)
  ultimately show ?case using Suc by (simp add: up_cycle_def)
qed

lemma init_abOld: "abOld init_state = ab_code (False, False)"
  by (simp add: init_state_def ab_code_def digitalRead_def)

text \<open>
  Claim C3, as stated: the sequence A, B, A, B repeated \<open>N\<close> times raises \<open>count\<close> by
  exactly \<open>N\<close>. It fails for \<open>N = 1\<close> from the initial state: one turn A, B, A, B is
  four valid transitions and takes \<open>count\<close> from 157 to 161, not to 158.
\<close>

theorem up_cycle_counterexample:
  "up_cycle (False, False) = [(True, False), (True, True), (False, True), (False, False)]
   \<and> sint (count init_state) + 1 \<le> sint COUNTLIMIT
   \<and> sint (count (run_isr (concat (replicate 1 (up_cycle (False, False)))) init_state))
       = sint (count init_state) + 4
   \<and> sint (count (run_isr (concat (replicate 1 (up_cycle (False, False)))) init_state))
       \<noteq> sint (count init_state) + 1"
proof -
  have "sint (count (run_isr (up_seq 4 (False, False)) init_state)) = sint (count init_state) + int 4"
    using init_abOld by (intro run_up_seq) (simp_all add: init_count)
  moreover have "up_seq 4 (False, False) = [(True, False), (True, True), (False, True), (False, False)]"
    by (simp add: numeral_nat up_next_def)
  ultimately show ?thesis by (simp add: up_cycle_def init_count COUNTLIMIT_def)
qed

text \<open>
  Claim C3, amended. When the last levels seen were \<open>p\<close> and \<open>count\<close> plus the
  \<open>4 * N\<close> transitions stays within \<open>COUNTLIMIT\<close>, the four-transition turn in the
  counting-up direction repeated \<open>N\<close> times raises \<open>count\<close> by one at each transition:
  after the first \<open>k\<close> transitions it is the starting value plus \<open>k\<close>, and so
  the starting value plus \<open>4 * N\<close> at the end.
\<close>

theorem up_cycles_count:
  assumes "abOld s = ab_code p" and "0 \<le> sint (count s)"
    and "sint (count s) + 4 * int N \<le> sint COUNTLIMIT" and "k \<le> 4 * N"
  shows "sint (count (run_isr (take k (concat (replicate N (up_cycle p)))) s)) = sint (count s) + int k"
proof -
  have "take k (concat (replicate N (up_cycle p))) = up_seq k p"
    using assms(4) by (simp add: up_cycles take_up_seq)
  moreover have "sint (count s) + int k \<le> 2046"
    using assms(3,4) by (simp add: COUNTLIMIT_def)
  ultimately show ?thesis using assms(1,2) by (simp add: run_up_seq)
qed

theorem up_cycles_count_witness:
  "abOld init_state = ab_code (False, False) \<and> 0 \<le> sint (count init_state)
   \<and> sint (count init_state) + 4 * int 2 \<le> sint COUNTLIMIT \<and> (8::nat) \<le> 4 * 2
   \<and> sint (count (run_isr (take 8 (concat (replicate 2 (up_cycle (False, False))))) init_state)) = 165"
proof -
  have h: "0 \<le> sint (count init_state)" "sint (count init_state) + 4 * int 2 \<le> sint COUNTLIMIT"
    by (simp_all add: init_count COUNTLIMIT_def)
  have "sint (count (run_isr (take 8 (concat (replicate 2 (up_cycle (False, False))))) init_state))
        = sint (count init_state) + int 8"
    using init_abOld h by (rule up_cycles_count) simp
  with init_abOld h show ?thesis by (simp add: init_count)
qed

section \<open>Evaluating the single-precision model\<close>

lemmas f32_eval = f32_of_int_def f32_to_int_def rne_def nbits.simps normal.simps Let_def

text \<open>
  The literal 0.1599 as a \<open>float\<close>: the mantissa has 24 bits and the value is within
  half a unit in the last place of 1599 / 10000 (both sides scaled by \<open>10000 * 2 ^ 26\<close>),
  and it is what the division of 1599 by 10000 gives.
\<close>

lemma nearest_1599:
  "nbits (nat (mant (Flt 10730707 (-26)))) = 24
   \<and> \<bar>10000 * mant (Flt 10730707 (-26)) - 1599 * 2 ^ 26\<bar> < 5000"
  by (simp add: nbits.simps)

lemma q1599: "f32_div (f32_of_int 1599) (f32_of_int 10000) = Flt 10730707 (-26)"
  by (simp add: f32_eval)

lemma digit1_1599: "f32_to_int (f32_mul (Flt 10730707 (-26)) (f32_of_int 10)) = 1"
  by (simp add: f32_eval)
lemma digit2_1599: "f32_to_int (f32_sub (f32_mul (Flt 10730707 (-26)) (f32_of_int 100)) (f32_of_int 10)) = 5"
  by (simp add: f32_eval)
lemma digit3_1599: "f32_to_int (f32_sub (f32_mul (Flt 10730707 (-26)) (f32_of_int 1000)) (f32_of_int 150)) = 9"
  by (simp add: f32_eval)
lemma digit4_1599: "f32_to_int (f32_sub (f32_mul (Flt 10730707 (-26)) (f32_of_int 10000)) (f32_of_int 1590)) = 9"
  by (simp add: f32_eval)

lemma duty_157i: "f32_div (f32_mul (f32_of_int 157) (f32_of_int 100)) (f32_of_int 2046) = Flt 16092515 (-21)"
  by (simp add: f32_eval)
lemma base_157i: "f32_to_int (f32_mul (f32_div (Flt 16092515 (-21)) (f32_of_int 100)) (f32_of_int 1023)) = 78"
  by (simp add: f32_eval)
lemma duty_2046i: "f32_div (f32_mul (f32_of_int 2046) (f32_of_int 100)) (f32_of_int 2046) = Flt 25 2"
  by (simp add: f32_eval)
lemma base_100i: "f32_to_int (f32_mul (f32_div (Flt 25 2) (f32_of_int 100)) (f32_of_int 1023)) = 1023"
  by (simp add: f32_eval)

lemma duty_157: "duty_of_count 157 = Flt 16092515 (-21)"
  by (simp add: duty_of_count_def float_of_int_def COUNTLIMIT_def duty_157i)

lemma base_157: "base_pwm (Flt 16092515 (-21)) = 78"
  by (simp add: base_pwm_def int_of_float_def float_of_int_def base_157i)

lemma duty_2046: "duty_of_count 2046 = Flt 25 2"
  by (simp add: duty_of_count_def float_of_int_def COUNTLIMIT_def duty_2046i)

lemma base_100: "base_pwm (Flt 25 2) = 1023"
  by (simp add: base_pwm_def int_of_float_def float_of_int_def base_100i)

lemma digits_1599: "display_digits (Flt 10730707 (-26)) = [1, 5, 9, 9]"
  by (simp add: display_digits_def Let_def int_of_float_def float_of_int_def digit1_1599 digit2_1599 digit3_1599 digit4_1599)

lemma upt4: "[0 ..< 4] = [0, 1, 2, 3]"
  by (simp add: upt_rec)

section \<open>Effect of the stages of the main loop\<close>

lemma forward_read: "forward (read_buttons k1 k2 k3 k4 s) = (k1 \<and> k2)"
  by (cases k1; cases k2) (simp_all add: read_buttons_def Let_def digitalRead_def word_sle_eq)

lemma speed2x_read: "speed2x (read_buttons k1 k2 k3 k4 s) = (\<not> (k2 \<and> k3))"
  by (cases k2; cases k3) (simp_all add: read_buttons_def Let_def digitalRead_def word_sless_alt)

lemma speedFull_read: "speedFull (read_buttons k1 k2 k3 k4 s) = (\<not> (k1 \<and> k4))"
  by (cases k1; cases k4) (simp_all add: read_buttons_def Let_def digitalRead_def word_sless_alt)

lemma read_buttons_frame:
  "count (read_buttons k1 k2 k3 k4 s) = count s"
  "stopped (read_buttons k1 k2 k3 k4 s) = stopped s"
  "displayIsOn (read_buttons k1 k2 k3 k4 s) = displayIsOn s"
  "MOTOR_A1 (read_buttons k1 k2 k3 k4 s) = MOTOR_A1 s"
  "MOTOR_B1 (read_buttons k1 k2 k3 k4 s) = MOTOR_B1 s"
  "pwmUpdateNeeded s \<Longrightarrow> pwmUpdateNeeded (read_buttons k1 k2 k3 k4 s)"
  by (simp_all add: read_buttons_def Let_def)

lemma checkKYbutton_frame:
  "count (checkKYbutton b n n' s) = count s"
  "stopped (checkKYbutton b n n' s) = stopped s"
  "pwmUpdateNeeded (checkKYbutton b n n' s) = pwmUpdateNeeded s"
  "MOTOR_A1 (checkKYbutton b n n' s) = MOTOR_A1 s"
  "MOTOR_B1 (checkKYbutton b n n' s) = MOTOR_B1 s"
  by (simp_all add: checkKYbutton_def)

lemma output_stage_run:
  assumes "pwmUpdateNeeded s"
  shows "PWM_OUTPUT (output_stage s) =
           Some (if speed2x s then base_pwm (duty_of_count (count s)) * 2
                 else if speedFull s then 1023
                 else base_pwm (duty_of_count (count s)))"
    and "dutyCycle (output_stage s) = duty_of_count (count s)"
    and "\<not> pwmUpdateNeeded (output_stage s)"
    and "count (output_stage s) = count s"
    and "speed2x (output_stage s) = speed2x s"
    and "displayIsOn (output_stage s) = displayIsOn s"
  using assms
  by (simp_all add: output_stage_def Let_def write_direction_def split: direction.splits)

lemma display_stage_frame:
  "PWM_OUTPUT (display_stage s) = PWM_OUTPUT s"
  "dutyCycle (display_stage s) = dutyCycle s"
  "pwmUpdateNeeded (display_stage s) = pwmUpdateNeeded s"
  "count (display_stage s) = count s"
  "speed2x (display_stage s) = speed2x s"
  "displayIsOn (display_stage s) = displayIsOn s"
  "shown (display_stage s) = display (displayIsOn s) (f32_div (dutyCycle s) (f32_of_int 100))"
  by (simp_all add: display_stage_def)

lemma loop_run:
  assumes "pwmUpdateNeeded s"
  shows "PWM_OUTPUT (loop i s) =
           Some (if key2 i \<and> key3 i
                 then (if key1 i \<and> key4 i then base_pwm (duty_of_count (count s)) else 1023)
                 else base_pwm (duty_of_count (count s)) * 2)"
    and "dutyCycle (loop i s) = duty_of_count (count s)"
    and "\<not> pwmUpdateNeeded (loop i s)"
    and "count (loop i s) = count s"
    and "speed2x (loop i s) = (\<not> (key2 i \<and> key3 i))"
    and "shown (loop i s) = display (displayIsOn (loop i s)) (f32_div (duty_of_count (count s)) (f32_of_int 100))"
proof -
  define t where
    "t = read_buttons (key1 i) (key2 i) (key3 i) (key4 i)
           (checkKYbutton (ky_button i) (millis1 i) (millis2 i) s)"
  have f: "pwmUpdateNeeded t"
    using assms by (simp add: t_def read_buttons_frame checkKYbutton_frame)
  have c: "count t = count s"
    by (simp add: t_def read_buttons_frame checkKYbutton_frame)
  have s2: "speed2x t = (\<not> (key2 i \<and> key3 i))"
    by (simp add: t_def speed2x_read)
  have sf: "speedFull t = (\<not> (key1 i \<and> key4 i))"
    by (simp add: t_def speedFull_read)
  have l: "loop i s = display_stage (output_stage t)"
    by (simp add: loop_def t_def)
  show "PWM_OUTPUT (loop i s) =
           Some (if key2 i \<and> key3 i
                 then (if key1 i \<and> key4 i then base_pwm (duty_of_count (count s)) else 1023)
                 else base_pwm (duty_of_count (count s)) * 2)"
    unfolding l display_stage_frame output_stage_run(1)[OF f] c s2 sf by simp
  show "dutyCycle (loop i s) = duty_of_count (count s)"
    unfolding l display_stage_frame output_stage_run(2)[OF f] c by simp
  show "\<not> pwmUpdateNeeded (loop i s)"
    unfolding l display_stage_frame using output_stage_run(3)[OF f] by simp
  show "count (loop i s) = count s"
    unfolding l display_stage_frame output_stage_run(4)[OF f] c by simp
  show "speed2x (loop i s) = (\<not> (key2 i \<and> key3 i))"
    unfolding l display_stage_frame output_stage_run(5)[OF f] s2 by simp
  show "shown (loop i s) = display (displayIsOn (loop i s)) (f32_div (duty_of_count (count s)) (f32_of_int 100))"
    unfolding l display_stage_frame output_stage_run(2)[OF f] c by simp
qed

lemma double_not_1023: "(x :: int16) * 2 \<noteq> 1023"
proof
  assume "x * 2 = 1023"
  then have "even (1023 :: int16)" by (metis dvd_triv_right)
  then show False by simp
qed

section \<open>The command aggregator\<close>

text \<open>
  Claim C4, as stated: when only one of the buttons 1 and 2 is pressed, \<open>forward\<close>
  remains true. It fails with button 1 pressed (level LOW) and button 2 released (level
  HIGH): the sum of the two levels is 1, which is below 2, and \<open>forward\<close> is false.
\<close>

theorem forward_counterexample:
  "\<not> forward (read_buttons False True True True init_state)"
  by (simp add: forward_read)

text \<open>
  Claim C4, amended. For every pair of levels of the buttons 1 and 2, \<open>forward\<close> is
  true exactly when both levels are HIGH, that is when neither button is pressed;
  pressing either of them alone makes it false.
\<close>

theorem forward_iff_both_released:
  "forward (read_buttons k1 k2 k3 k4 s) = (k1 \<and> k2)"
  by (rule forward_read)

theorem forward_iff_both_released_witness:
  "forward (read_buttons True True True True init_state)
   \<and> \<not> forward (read_buttons True False True True init_state)"
  using forward_iff_both_released [of True True True True init_state]
    forward_iff_both_released [of True False True True init_state]
  by simp

section \<open>The output driver\<close>

text \<open>
  Claim C5. When the output stage runs with both \<open>speed2x\<close> and \<open>speedFull\<close> true,
  the duty passed to \<open>Timer1.pwm\<close> is the duty computed from \<open>count\<close> doubled, for
  every \<open>count\<close>, and it is not the forced maximum 1023.
\<close>

theorem speed2x_wins:
  assumes "pwmUpdateNeeded s" and "speed2x s" and "speedFull s"
  shows "PWM_OUTPUT (output_stage s) = Some (base_pwm (duty_of_count (count s)) * 2)
         \<and> PWM_OUTPUT (output_stage s) \<noteq> Some 1023"
  using assms by (simp add: output_stage_run(1) double_not_1023)

lemma init_flag: "pwmUpdateNeeded init_state"
  by (simp add: init_state_def)

theorem speed2x_wins_witness:
  "pwmUpdateNeeded (read_buttons False False True True init_state)
   \<and> speed2x (read_buttons False False True True init_state)
   \<and> speedFull (read_buttons False False True True init_state)
   \<and> PWM_OUTPUT (output_stage (read_buttons False False True True init_state)) = Some 156"
proof -
  let ?s = "read_buttons False False True True init_state"
  have h: "pwmUpdateNeeded ?s" "speed2x ?s" "speedFull ?s"
    by (simp_all add: read_buttons_frame init_flag speed2x_read speedFull_read)
  have "PWM_OUTPUT (output_stage ?s) = Some (base_pwm (duty_of_count (count ?s)) * 2)"
    using speed2x_wins [OF h] by simp
  then have "PWM_OUTPUT (output_stage ?s) = Some 156"
    by (simp add: read_buttons_frame init_count duty_157 base_157)
  with h show ?thesis by simp
qed

subsection \<open>Reaching the count limit\<close>

lemma isr_flag: "pwmUpdateNeeded (pinChangeISR a b s)"
  by (simp add: pinChangeISR_def Let_def)

lemma run_isr_flag: "pwmUpdateNeeded s \<Longrightarrow> pwmUpdateNeeded (run_isr ins s)"
  unfolding run_isr_def
  by (induction ins arbitrary: s) (auto simp: isr_flag)

lemma count_at_limit: "count (run_isr (up_seq 1889 (False, False)) init_state) = 2046"
proof -
  have "sint (count (run_isr (up_seq 1889 (False, False)) init_state)) = sint (count init_state) + int 1889"
    using init_abOld by (intro run_up_seq) (simp_all add: init_count)
  then have "sint (count (run_isr (up_seq 1889 (False, False)) init_state)) = sint (2046 :: int16)"
    by (simp add: init_count)
  then show ?thesis by (rule signed_word_eqI)
qed

text \<open>
  Claim C6. The doubled duty is not clamped: 1889 interrupts in the counting-up direction
  take \<open>count\<close> from 157 to \<open>COUNTLIMIT = 2046\<close>, and an iteration of \<open>loop\<close> with
  button 3 pressed then passes the duty 2046 to \<open>Timer1.pwm\<close>, above 1023.
\<close>

theorem speed2x_exceeds_resolution:
  "\<exists>ins i d. count (loop i (run_isr ins init_state)) = COUNTLIMIT
     \<and> speed2x (loop i (run_isr ins init_state))
     \<and> PWM_OUTPUT (loop i (run_isr ins init_state)) = Some d
     \<and> sint d = 2046 \<and> 1023 < sint d"
proof -
  let ?s = "run_isr (up_seq 1889 (False, False)) init_state"
  let ?i = "idle\<lparr>key3 := False\<rparr>"
  have f: "pwmUpdateNeeded ?s"
    by (rule run_isr_flag) (rule init_flag)
  have "count (loop ?i ?s) = COUNTLIMIT"
    by (simp add: loop_run(4)[OF f] count_at_limit COUNTLIMIT_def)
  moreover have "speed2x (loop ?i ?s)"
    by (simp add: loop_run(5)[OF f] idle_def)
  moreover have "PWM_OUTPUT (loop ?i ?s) = Some 2046"
    by (simp add: loop_run(1)[OF f] idle_def count_at_limit duty_2046 base_100)
  ultimately show ?thesis
    by (intro exI[of _ "up_seq 1889 (False, False)"] exI[of _ ?i] exI[of _ 2046]) simp
qed

theorem speed2x_exceeds_resolution_witness:
  "\<exists>ins i. PWM_OUTPUT (loop i (run_isr ins init_state)) = Some COUNTLIMIT"
proof -
  obtain ins i d where "PWM_OUTPUT (loop i (run_isr ins init_state)) = Some d" and "sint d = 2046"
    using speed2x_exceeds_resolution by blast
  moreover from this have "d = COUNTLIMIT"
    by (intro signed_word_eqI) (simp add: COUNTLIMIT_def)
  ultimately show ?thesis by blast
qed

lemma init_intents: "\<not> speed2x init_state" "\<not> speedFull init_state" "forward init_state"
  by (simp_all add: init_state_def)

text \<open>
  Claim C8. With \<open>pwmUpdateNeeded\<close> false the output stage changes nothing: the state
  is the same, in particular the direction pins, the duty passed to the PWM output and
  \<open>dutyCycle\<close>; a second run right after leaves the emitted duty unchanged as well.
\<close>

theorem quiescent_output_stage:
  assumes "\<not> pwmUpdateNeeded s"
  shows "output_stage s = s
         \<and> MOTOR_A1 (output_stage s) = MOTOR_A1 s \<and> MOTOR_B1 (output_stage s) = MOTOR_B1 s
         \<and> PWM_OUTPUT (output_stage s) = PWM_OUTPUT s \<and> dutyCycle (output_stage s) = dutyCycle s
         \<and> PWM_OUTPUT (output_stage (output_stage s)) = PWM_OUTPUT s"
  using assms by (simp add: output_stage_def)

theorem quiescent_output_stage_witness:
  "\<not> pwmUpdateNeeded (output_stage init_state)
   \<and> output_stage (output_stage init_state) = output_stage init_state
   \<and> PWM_OUTPUT (output_stage (output_stage (output_stage init_state))) = Some 78"
proof -
  have h: "\<not> pwmUpdateNeeded (output_stage init_state)"
    by (rule output_stage_run(3)) (rule init_flag)
  have p: "PWM_OUTPUT (output_stage init_state) = Some 78"
    by (simp add: output_stage_run(1)[OF init_flag] init_count duty_157 base_157 init_intents)
  show ?thesis using quiescent_output_stage [OF h] h p by simp
qed

subsection \<open>Direction outputs\<close>

lemma direction_ok_reachable: "reachable s \<Longrightarrow> direction_ok s"
proof (induction rule: reachable.induct)
  case r_init
  show ?case by (simp add: direction_ok_def init_state_def)
next
  case (r_isr s a b)
  then show ?case by (simp add: direction_ok_def pinChangeISR_def Let_def)
next
  case (r_button s button now now')
  then show ?case by (simp add: direction_ok_def checkKYbutton_frame)
next
  case (r_read s k1 k2 k3 k4)
  then show ?case by (simp add: direction_ok_def read_buttons_frame)
next
  case (r_output s)
  then show ?case
    by (simp add: direction_ok_def output_stage_def Let_def resolve_direction_def write_direction_def)
next
  case (r_display s)
  then show ?case by (simp add: direction_ok_def display_stage_def)
qed

text \<open>
  Claim C9. In every reachable state \<open>stopped\<close> is false, the direction resolution
  does not take the stop branch, and the direction pins are never both written LOW: they
  are unwritten (before the first run of the output stage), forward or reverse.
\<close>

theorem stop_unreachable:
  assumes "reachable s"
  shows "\<not> stopped s \<and> resolve_direction s \<noteq> Stop
         \<and> (MOTOR_A1 s, MOTOR_B1 s) \<noteq> (Some False, Some False)
         \<and> (MOTOR_A1 s, MOTOR_B1 s) \<in> {(None, None), (Some False, Some True), (Some True, Some False)}"
  using direction_ok_reachable [OF assms]
  by (auto simp: direction_ok_def resolve_direction_def)

theorem stop_unreachable_witness:
  "reachable (output_stage (read_buttons False True True True init_state))
   \<and> \<not> stopped (output_stage (read_buttons False True True True init_state))
   \<and> (MOTOR_A1 (output_stage (read_buttons False True True True init_state)),
       MOTOR_B1 (output_stage (read_buttons False True True True init_state))) = (Some True, Some False)"
proof -
  let ?s = "output_stage (read_buttons False True True True init_state)"
  have r: "reachable ?s"
    by (intro r_output r_read r_init)
  have "(MOTOR_A1 ?s, MOTOR_B1 ?s) = (Some True, Some False)"
    by (simp add: output_stage_def Let_def read_buttons_frame init_flag resolve_direction_def
          forward_read write_direction_def init_state_def)
  with r stop_unreachable [OF r] show ?thesis by simp
qed

section \<open>The display renderer\<close>

text \<open>
  Claim C7. The \<open>float\<close> nearest to 0.1599 is \<open>10730707 * 2 ^ -26\<close>. For it,
  \<open>display\<close> computes the digits 1, 5, 9, 9 and calls \<open>displayNumber\<close> with the
  decimal dot on the digit of index 1, the second one: only the second segment byte has
  bit 7, the (active-low) dot, cleared.
\<close>

theorem display_1599_digits:
  "f32_div (f32_of_int 1599) (f32_of_int 10000) = Flt 10730707 (-26)
   \<and> display_digits (Flt 10730707 (-26)) = [1, 5, 9, 9]
   \<and> display True (Flt 10730707 (-26)) =
       [displayNumber True 1 0 False, displayNumber True 5 1 True,
        displayNumber True 9 2 False, displayNumber True 9 3 False]
   \<and> display True (Flt 10730707 (-26)) =
       [(Some 0xF9, Some 0x08), (Some 0x12, Some 0x04), (Some 0x90, Some 0x02), (Some 0x90, Some 0x01)]"
  by (simp add: q1599 display_def digits_1599 upt4 displayNumber_def table_read_def bits_def displays_def)

theorem display_1599_digits_witness:
  "display_digits (f32_div (f32_of_int 1599) (f32_of_int 10000)) = [1, 5, 9, 9]
   \<and> map (\<lambda>f. map_option (\<lambda>x. bit x 7) (fst f))
         (display True (f32_div (f32_of_int 1599) (f32_of_int 10000)))
       = [Some True, Some False, Some True, Some True]"
proof -
  note q = display_1599_digits [THEN conjunct1]
  note d = display_1599_digits [THEN conjunct2, THEN conjunct1]
  note f = display_1599_digits [THEN conjunct2, THEN conjunct2, THEN conjunct2]
  have b: "bit (0xF9 :: byte) 7" "\<not> bit (0x12 :: byte) 7" "bit (0x90 :: byte) 7"
    by (simp_all add: bit_numeral_word_iff)
  show ?thesis unfolding q d f using b by simp
qed

section \<open>The first iteration\<close>

lemma q157: "f32_div (Flt 16092515 (-21)) (f32_of_int 100) = Flt 5149605 (-26)"
  by (simp add: f32_eval)

lemma digit1_157: "f32_to_int (f32_mul (Flt 5149605 (-26)) (f32_of_int 10)) = 0"
  by (simp add: f32_eval)
lemma digit2_157: "f32_to_int (f32_sub (f32_mul (Flt 5149605 (-26)) (f32_of_int 100)) (f32_of_int 0)) = 7"
  by (simp add: f32_eval)
lemma digit3_157: "f32_to_int (f32_sub (f32_mul (Flt 5149605 (-26)) (f32_of_int 1000)) (f32_of_int 70)) = 6"
  by (simp add: f32_eval)
lemma digit4_157: "f32_to_int (f32_sub (f32_mul (Flt 5149605 (-26)) (f32_of_int 10000)) (f32_of_int 760)) = 7"
  by (simp add: f32_eval)

lemma digits_157: "display_digits (Flt 5149605 (-26)) = [0, 7, 6, 7]"
  by (simp add: display_digits_def Let_def int_of_float_def float_of_int_def digit1_157 digit2_157 digit3_157 digit4_157)

lemma q8: "f32_div (Flt 1 3) (f32_of_int 100) = Flt 5368709 (-26)"
  by (simp add: f32_eval)

lemma digit1_8: "f32_to_int (f32_mul (Flt 5368709 (-26)) (f32_of_int 10)) = 0"
  by (simp add: f32_eval)
lemma digit2_8: "f32_to_int (f32_sub (f32_mul (Flt 5368709 (-26)) (f32_of_int 100)) (f32_of_int 0)) = 8"
  by (simp add: f32_eval)
lemma digit3_8: "f32_to_int (f32_sub (f32_mul (Flt 5368709 (-26)) (f32_of_int 1000)) (f32_of_int 80)) = 0"
  by (simp add: f32_eval)
lemma digit4_8: "f32_to_int (f32_sub (f32_mul (Flt 5368709 (-26)) (f32_of_int 10000)) (f32_of_int 800)) = 0"
  by (simp add: f32_eval)

lemma digits_8: "display_digits (Flt 5368709 (-26)) = [0, 8, 0, 0]"
  by (simp add: display_digits_def Let_def int_of_float_def float_of_int_def digit1_8 digit2_8 digit3_8 digit4_8)

lemma frames_157: "display True (Flt 5149605 (-26)) =
   [(Some 0xC0, Some 0x08), (Some 0x78, Some 0x04), (Some 0x82, Some 0x02), (Some 0xF8, Some 0x01)]"
  by (simp add: display_def digits_157 upt4 displayNumber_def table_read_def bits_def displays_def)

lemma frames_8: "display True (Flt 5368709 (-26)) =
   [(Some 0xC0, Some 0x08), (Some 0x00, Some 0x04), (Some 0xC0, Some 0x02), (Some 0xC0, Some 0x01)]"
  by (simp add: display_def digits_8 upt4 displayNumber_def table_read_def bits_def displays_def)

lemma init_display: "dutyCycle init_state = Flt 1 3" "shown init_state = []" "displayIsOn init_state"
  by (simp_all add: init_state_def)

lemma loop_displayIsOn_idle: "displayIsOn (loop idle init_state)"
  by (simp add: loop_def display_stage_frame output_stage_def Let_def write_direction_def
        read_buttons_frame checkKYbutton_def idle_def init_display split: direction.splits)

text \<open>
  Claim C10, as stated: a value derived from the initial \<open>dutyCycle = 8.0\<close> is displayed
  before the first update. It fails: nothing is displayed in the initial state, and the
  first iteration of \<open>loop\<close> (here with no button pressed) runs the output stage
  before \<open>display\<close>, so that the first frames shifted out are those of the duty
  derived from \<open>count\<close> and differ from the frames of 8.0.
\<close>

theorem first_display_counterexample:
  "shown init_state = []
   \<and> shown (loop idle init_state) = display True (f32_div (duty_of_count (count init_state)) (f32_of_int 100))
   \<and> shown (loop idle init_state) \<noteq> display True (f32_div (dutyCycle init_state) (f32_of_int 100))"
proof -
  have "shown (loop idle init_state) = display True (f32_div (duty_of_count (count init_state)) (f32_of_int 100))"
    using loop_run(6)[OF init_flag, of idle] loop_displayIsOn_idle by simp
  moreover have "display True (f32_div (duty_of_count (count init_state)) (f32_of_int 100))
                 \<noteq> display True (f32_div (dutyCycle init_state) (f32_of_int 100))"
    by (simp add: init_count duty_157 q157 frames_157 init_display q8 frames_8)
  ultimately show ?thesis by (simp add: init_display)
qed

text \<open>
  Claim C10, amended. Initially \<open>pwmUpdateNeeded\<close> is true, \<open>count\<close> is
  \<open>COUNTLIMIT / 13 = 157\<close> and \<open>dutyCycle\<close> is 8.0. Whatever the buttons, the first
  iteration of \<open>loop\<close> runs the output stage: it clears the flag, passes to the PWM
  output the duty computed from \<open>count = 157\<close> (78, or 156 doubled, or 1023 forced) and
  overwrites \<open>dutyCycle\<close> with the value derived from \<open>count\<close>, which differs from
  8.0. The display is first written after that, from the new \<open>dutyCycle\<close>: its
  digits are 0, 7, 6, 7.
\<close>

theorem first_iteration:
  "pwmUpdateNeeded init_state
   \<and> count init_state = int_div COUNTLIMIT 13 \<and> sint (count init_state) = 157
   \<and> dutyCycle init_state = f32_of_int 8
   \<and> \<not> pwmUpdateNeeded (loop i init_state)
   \<and> PWM_OUTPUT (loop i init_state) =
       Some (if key2 i \<and> key3 i then (if key1 i \<and> key4 i then 78 else 1023) else 156)
   \<and> dutyCycle (loop i init_state) = duty_of_count 157
   \<and> dutyCycle (loop i init_state) \<noteq> dutyCycle init_state
   \<and> shown init_state = []
   \<and> shown (loop i init_state)
       = display (displayIsOn (loop i init_state)) (f32_div (dutyCycle (loop i init_state)) (f32_of_int 100))
   \<and> display_digits (f32_div (dutyCycle (loop i init_state)) (f32_of_int 100)) = [0, 7, 6, 7]"
proof -
  have a: "count init_state = int_div COUNTLIMIT 13"
    by (simp add: init_state_def)
  have b: "f32_of_int 8 = Flt 1 3"
    by (simp add: f32_eval)
  show ?thesis
    using loop_run[OF init_flag, of i]
    by (simp add: init_flag a [symmetric] init_count init_display b base_157 duty_157 q157 digits_157)
qed

theorem first_iteration_witness:
  "PWM_OUTPUT (loop idle init_state) = Some 78
   \<and> shown (loop idle init_state) =
       [(Some 0xC0, Some 0x08), (Some 0x78, Some 0x04), (Some 0x82, Some 0x02), (Some 0xF8, Some 0x01)]"
  using first_iteration [of idle] loop_displayIsOn_idle
  by (simp add: idle_def duty_157 q157 frames_157)

end
